theory Spec2Isabelle
  imports Complex_Main
begin

section \<open>Array elements\<close>

text \<open>
  The program computes with numpy arrays of 64-bit floats. An element is modelled as
  either a finite value, taken as an exact real number (no rounding, no overflow, one
  unsigned zero), or one of the three special values that a division by zero brings in.
  The arithmetic on the special values follows IEEE 754 as numpy applies it with its
  default error state: a division by zero is a warning, never an exception.
\<close>

datatype npfloat = Finite real | PInf | NInf | NaN

datatype error = ValueError | ZeroDivisionError

fun is_finite :: "npfloat \<Rightarrow> bool" where
  "is_finite (Finite a) = True"
| "is_finite PInf = False"
| "is_finite NInf = False"
| "is_finite NaN = False"

fun fin_val :: "npfloat \<Rightarrow> real" where
  "fin_val (Finite a) = a"
| "fin_val PInf = 0"
| "fin_val NInf = 0"
| "fin_val NaN = 0"

instantiation npfloat :: "{plus, minus, uminus, times, inverse, abs, ord}"
begin

fun uminus_npfloat :: "npfloat \<Rightarrow> npfloat" where
  "uminus_npfloat (Finite a) = Finite (- a)"
| "uminus_npfloat PInf = NInf"
| "uminus_npfloat NInf = PInf"
| "uminus_npfloat NaN = NaN"

fun plus_npfloat :: "npfloat \<Rightarrow> npfloat \<Rightarrow> npfloat" where
  "plus_npfloat (Finite a) (Finite b) = Finite (a + b)"
| "plus_npfloat NaN y = NaN"
| "plus_npfloat x NaN = NaN"
| "plus_npfloat PInf NInf = NaN"
| "plus_npfloat NInf PInf = NaN"
| "plus_npfloat PInf y = PInf"
| "plus_npfloat x PInf = PInf"
| "plus_npfloat NInf y = NInf"
| "plus_npfloat x NInf = NInf"

definition minus_npfloat :: "npfloat \<Rightarrow> npfloat \<Rightarrow> npfloat" where
  "minus_npfloat x y = x + (- y)"

fun times_npfloat :: "npfloat \<Rightarrow> npfloat \<Rightarrow> npfloat" where
  "times_npfloat (Finite a) (Finite b) = Finite (a * b)"
| "times_npfloat NaN y = NaN"
| "times_npfloat x NaN = NaN"
| "times_npfloat PInf (Finite b) = (if b = 0 then NaN else if 0 < b then PInf else NInf)"
| "times_npfloat NInf (Finite b) = (if b = 0 then NaN else if 0 < b then NInf else PInf)"
| "times_npfloat (Finite a) PInf = (if a = 0 then NaN else if 0 < a then PInf else NInf)"
| "times_npfloat (Finite a) NInf = (if a = 0 then NaN else if 0 < a then NInf else PInf)"
| "times_npfloat PInf PInf = PInf"
| "times_npfloat PInf NInf = NInf"
| "times_npfloat NInf PInf = NInf"
| "times_npfloat NInf NInf = PInf"

fun divide_npfloat :: "npfloat \<Rightarrow> npfloat \<Rightarrow> npfloat" where
  "divide_npfloat (Finite a) (Finite b) =
     (if b = 0 then (if a = 0 then NaN else if 0 < a then PInf else NInf)
      else Finite (a / b))"
| "divide_npfloat NaN y = NaN"
| "divide_npfloat x NaN = NaN"
| "divide_npfloat (Finite a) PInf = Finite 0"
| "divide_npfloat (Finite a) NInf = Finite 0"
| "divide_npfloat PInf (Finite b) = (if 0 \<le> b then PInf else NInf)"
| "divide_npfloat NInf (Finite b) = (if 0 \<le> b then NInf else PInf)"
| "divide_npfloat PInf PInf = NaN"
| "divide_npfloat PInf NInf = NaN"
| "divide_npfloat NInf PInf = NaN"
| "divide_npfloat NInf NInf = NaN"

definition inverse_npfloat :: "npfloat \<Rightarrow> npfloat" where
  "inverse_npfloat x = divide (Finite 1) x"

fun abs_npfloat :: "npfloat \<Rightarrow> npfloat" where
  "abs_npfloat (Finite a) = Finite \<bar>a\<bar>"
| "abs_npfloat PInf = PInf"
| "abs_npfloat NInf = PInf"
| "abs_npfloat NaN = NaN"

fun less_eq_npfloat :: "npfloat \<Rightarrow> npfloat \<Rightarrow> bool" where
  "less_eq_npfloat (Finite a) (Finite b) = (a \<le> b)"
| "less_eq_npfloat NaN y = False"
| "less_eq_npfloat x NaN = False"
| "less_eq_npfloat NInf y = True"
| "less_eq_npfloat x PInf = True"
| "less_eq_npfloat PInf y = False"
| "less_eq_npfloat x NInf = False"

fun less_npfloat :: "npfloat \<Rightarrow> npfloat \<Rightarrow> bool" where
  "less_npfloat (Finite a) (Finite b) = (a < b)"
| "less_npfloat NaN y = False"
| "less_npfloat x NaN = False"
| "less_npfloat PInf y = False"
| "less_npfloat x NInf = False"
| "less_npfloat NInf y = True"
| "less_npfloat x PInf = True"

instance ..

end

text \<open>
  \<open>np.sinc\<close> and \<open>np.exp\<close> on one element. numpy documents \<open>sinc\<close> as
  \<open>sin(pi x) / (pi x)\<close> with the value 1 at 0; at an infinity it computes the sine of an
  infinity, which is NaN.
\<close>

definition sinc :: "real \<Rightarrow> real" where
  "sinc t = (if t = 0 then 1 else sin (pi * t) / (pi * t))"

fun np_sinc1 :: "npfloat \<Rightarrow> npfloat" where
  "np_sinc1 (Finite a) = Finite (sinc a)"
| "np_sinc1 PInf = NaN"
| "np_sinc1 NInf = NaN"
| "np_sinc1 NaN = NaN"

fun np_exp :: "npfloat \<Rightarrow> npfloat" where
  "np_exp (Finite a) = Finite (exp a)"
| "np_exp PInf = PInf"
| "np_exp NInf = Finite 0"
| "np_exp NaN = NaN"

definition np_sinc :: "npfloat list \<Rightarrow> npfloat list" where
  "np_sinc x = map np_sinc1 x"

text \<open>\<open>np.sum\<close> of a one-dimensional array, and of all elements of a two-dimensional one.\<close>

definition np_sum1 :: "npfloat list \<Rightarrow> npfloat" where
  "np_sum1 xs = foldl (+) (Finite 0) xs"

definition np_sum :: "npfloat list list \<Rightarrow> npfloat" where
  "np_sum rows = np_sum1 (concat rows)"

section \<open>The sample grid\<close>

text \<open>
  \<open>np.linspace(start, stop, num)\<close>, as numpy documents it: \<open>num\<close> evenly spaced
  samples over the closed interval, the last one set to \<open>stop\<close> itself; a single
  sample is \<open>start\<close>; a negative \<open>num\<close> raises \<open>ValueError\<close>.
\<close>

definition linspace :: "real \<Rightarrow> real \<Rightarrow> int \<Rightarrow> error + npfloat list" where
  "linspace start stop num =
     (if num < 0 then Inl ValueError
      else let n = nat num in
        if n \<le> 1 then Inr (map (\<lambda>i. Finite start) [0..<n])
        else let step = (stop - start) / real (n - 1);
                 y = map (\<lambda>i. Finite (real i * step + start)) [0..<n]
             in Inr (y[n - 1 := Finite stop]))"

text \<open>\<open>_generate_x\<close>: the arguments are Python integers, \<open>/\<close> is true division.\<close>

definition generate_x :: "int \<Rightarrow> int \<Rightarrow> error + npfloat list" where
  "generate_x width samples_per_unit =
     (let samples_count = width * samples_per_unit + 1;
          start = real_of_int (- width) / 2;
          stop = real_of_int width / 2
      in linspace start stop samples_count)"

section \<open>The kernel families\<close>

text \<open>
  \<open>_create_2d_separable_func\<close>: a zero matrix of size \<open>n \<times> n\<close> filled entry by
  entry with the products of the profile.
\<close>

definition create_2d_separable_func :: "npfloat list \<Rightarrow> npfloat list list" where
  "create_2d_separable_func func_1d =
     map (\<lambda>p_x. map (\<lambda>p_y. func_1d ! p_x * func_1d ! p_y) [0..<length func_1d])
       [0..<length func_1d]"

definition generate_sinc_2d :: "int \<Rightarrow> int \<Rightarrow> error + npfloat list list" where
  "generate_sinc_2d width samples_per_unit =
     (case generate_x width samples_per_unit of
        Inl e \<Rightarrow> Inl e
      | Inr x \<Rightarrow> Inr (create_2d_separable_func (np_sinc x)))"

text \<open>
  \<open>generate_lanczos_1d\<close>. The parameter \<open>a\<close> is a Python number; \<open>x / a\<close> is numpy's
  element-wise division, so \<open>a = 0\<close> gives infinities and NaN and no exception. The
  product of the two comparison arrays is their conjunction; \<open>rect_lanczos\<close> is one
  where it holds and zero elsewhere.
\<close>

definition generate_lanczos_1d :: "int \<Rightarrow> int \<Rightarrow> real \<Rightarrow> error + npfloat list" where
  "generate_lanczos_1d width samples_per_unit a =
     (case generate_x width samples_per_unit of
        Inl e \<Rightarrow> Inl e
      | Inr x \<Rightarrow>
          let sincx = np_sinc x;
              sincx_a = np_sinc (map (\<lambda>v. v / Finite a) x);
              rect_lanczos =
                map (\<lambda>v. if Finite (- a) < v \<and> v < Finite a then Finite 1 else Finite 0) x
          in Inr (map2 (*) (map2 (*) sincx sincx_a) rect_lanczos))"

definition generate_lanczos_2d :: "int \<Rightarrow> int \<Rightarrow> real \<Rightarrow> error + npfloat list list" where
  "generate_lanczos_2d width samples_per_unit a =
     (case generate_lanczos_1d width samples_per_unit a of
        Inl e \<Rightarrow> Inl e
      | Inr lanczos_1d \<Rightarrow> Inr (create_2d_separable_func lanczos_1d))"

text \<open>
  \<open>generate_bicubic_1d\<close>: the two formulas of the loop body, on \<open>abs_xi\<close>, and the
  body itself. The parameter \<open>a\<close> is a Python float, so \<open>a + 2\<close>, \<open>5 * a\<close> and the
  like are computed before they meet the array element.
\<close>

definition bicubic_inner :: "real \<Rightarrow> npfloat \<Rightarrow> npfloat" where
  "bicubic_inner a abs_xi =
     (Finite (a + 2) * abs_xi * abs_xi * abs_xi) - (Finite (a + 3) * abs_xi * abs_xi) + Finite 1"

definition bicubic_outer :: "real \<Rightarrow> npfloat \<Rightarrow> npfloat" where
  "bicubic_outer a abs_xi =
     (Finite a * abs_xi * abs_xi * abs_xi) - (Finite (5 * a) * abs_xi * abs_xi)
       + (Finite (8 * a) * abs_xi) - Finite (4 * a)"

definition bicubic_at :: "real \<Rightarrow> npfloat \<Rightarrow> npfloat" where
  "bicubic_at a xi =
     (let abs_xi = \<bar>xi\<bar> in
      if abs_xi \<le> Finite 1 then bicubic_inner a abs_xi
      else if Finite 1 < abs_xi \<and> abs_xi \<le> Finite 2 then bicubic_outer a abs_xi
      else Finite 0)"

definition generate_bicubic_1d :: "int \<Rightarrow> int \<Rightarrow> real \<Rightarrow> error + npfloat list" where
  "generate_bicubic_1d width samples_per_unit a =
     (case generate_x width samples_per_unit of
        Inl e \<Rightarrow> Inl e
      | Inr x \<Rightarrow> Inr (map (bicubic_at a) x))"

definition generate_bicubic_2d :: "int \<Rightarrow> int \<Rightarrow> real \<Rightarrow> error + npfloat list list" where
  "generate_bicubic_2d width samples_per_unit a =
     (case generate_bicubic_1d width samples_per_unit a of
        Inl e \<Rightarrow> Inl e
      | Inr bicubic_1d \<Rightarrow> Inr (create_2d_separable_func bicubic_1d))"

text \<open>\<open>generate_cubicbspline_1d\<close>, in the same way.\<close>

definition cubicbspline_inner :: "npfloat \<Rightarrow> npfloat" where
  "cubicbspline_inner abs_xi =
     Finite (2 / 3) - (abs_xi * abs_xi) + ((abs_xi * abs_xi * abs_xi) / Finite 2)"

definition cubicbspline_outer :: "npfloat \<Rightarrow> npfloat" where
  "cubicbspline_outer abs_xi = (Finite 2 - abs_xi * abs_xi * abs_xi) / Finite 6"

definition cubicbspline_at :: "npfloat \<Rightarrow> npfloat" where
  "cubicbspline_at xi =
     (let abs_xi = \<bar>xi\<bar> in
      if Finite 0 \<le> abs_xi \<and> abs_xi < Finite 1 then cubicbspline_inner abs_xi
      else if Finite 1 \<le> abs_xi \<and> abs_xi < Finite 2 then cubicbspline_outer abs_xi
      else Finite 0)"

definition generate_cubicbspline_1d :: "int \<Rightarrow> int \<Rightarrow> error + npfloat list" where
  "generate_cubicbspline_1d width samples_per_unit =
     (case generate_x width samples_per_unit of
        Inl e \<Rightarrow> Inl e
      | Inr x \<Rightarrow> Inr (map cubicbspline_at x))"

definition generate_cubicbspline_2d :: "int \<Rightarrow> int \<Rightarrow> error + npfloat list list" where
  "generate_cubicbspline_2d width samples_per_unit =
     (case generate_cubicbspline_1d width samples_per_unit of
        Inl e \<Rightarrow> Inl e
      | Inr cubicbspline_1d \<Rightarrow> Inr (create_2d_separable_func cubicbspline_1d))"

text \<open>
  \<open>generate_gaussian_2d\<close>. \<open>sigma\<close> is a Python float, so \<open>factor\<close> is computed by
  Python's own division, which raises \<open>ZeroDivisionError\<close> on a zero divisor.
\<close>

definition generate_gaussian_2d :: "int \<Rightarrow> int \<Rightarrow> real \<Rightarrow> error + npfloat list list" where
  "generate_gaussian_2d width samples_per_unit sigma =
     (case generate_x width samples_per_unit of
        Inl e \<Rightarrow> Inl e
      | Inr x \<Rightarrow>
          let sigma_squared = sigma * sigma in
          if 2 * pi * sigma_squared = 0 then Inl ZeroDivisionError
          else
            let factor = 1 / (2 * pi * sigma_squared) in
            Inr (map (\<lambda>p_x. map (\<lambda>p_y.
                   Finite factor *
                   np_exp (- (x ! p_x * x ! p_x + x ! p_y * x ! p_y) / Finite (2 * sigma_squared)))
                 [0..<length x]) [0..<length x]))"

section \<open>Normalisation\<close>

text \<open>
  A two-dimensional array is an object that \<open>normalize_filter\<close> changes in place, so the
  arrays live in a store: a list of arrays, a reference being an index into it. A new
  array is appended to the store.
\<close>

type_synonym ndarray = "npfloat list list"
type_synonym store = "ndarray list"
type_synonym ref = nat

definition alloc :: "store \<Rightarrow> ndarray \<Rightarrow> store \<times> ref" where
  "alloc h k = (h @ [k], length h)"

text \<open>
  The rows that the slice \<open>[i::p]\<close> selects, for \<open>0 \<le> i\<close> and \<open>0 < p\<close>: the indices
  \<open>i\<close>, \<open>i + p\<close>, \<open>i + 2p\<close>, ... below the length.
\<close>

definition in_slice :: "nat \<Rightarrow> nat \<Rightarrow> nat \<Rightarrow> bool" where
  "in_slice i p j = (i \<le> j \<and> (j - i) mod p = 0)"

definition np_slice :: "ndarray \<Rightarrow> nat \<Rightarrow> nat \<Rightarrow> ndarray" where
  "np_slice k i p = map (\<lambda>j. k ! j) (filter (in_slice i p) [0..<length k])"

text \<open>The array after \<open>k[i::p] /= d\<close>: every element of the selected rows divided by \<open>d\<close>.\<close>

definition idiv_slice :: "ndarray \<Rightarrow> nat \<Rightarrow> nat \<Rightarrow> npfloat \<Rightarrow> ndarray" where
  "idiv_slice k i p d =
     map (\<lambda>j. if in_slice i p j then map (\<lambda>v. v / d) (k ! j) else k ! j) [0..<length k]"

text \<open>One iteration of the loop of \<open>normalize_filter\<close>, on the array's contents.\<close>

definition normalize_phase :: "nat \<Rightarrow> ndarray \<Rightarrow> nat \<Rightarrow> ndarray" where
  "normalize_phase oversampling k i =
     idiv_slice k i oversampling (np_sum (np_slice k i oversampling) * Finite (real oversampling))"

text \<open>
  \<open>normalize_filter\<close>: \<open>range(oversampling)\<close> is empty for \<open>oversampling \<le> 0\<close>; each
  iteration updates the array that \<open>filter_data\<close> refers to; the reference itself is
  returned. The function has no \<open>raise\<close>.
\<close>

definition normalize_filter :: "store \<Rightarrow> ref \<Rightarrow> int \<Rightarrow> store \<times> ref" where
  "normalize_filter h filter_data oversampling =
     (foldl (\<lambda>h' i. h'[filter_data := normalize_phase (nat oversampling) (h' ! filter_data) i])
        h [0..<nat oversampling],
      filter_data)"

text \<open>
  \<open>SincFilterGenerator.generate\<close>: the generated kernel is a new array bound to
  \<open>sincx_2d\<close>; with \<open>command_args.normalize\<close> set, what \<open>normalize_filter\<close> returns is returned.
\<close>

definition sinc_generate :: "store \<Rightarrow> int \<Rightarrow> int \<Rightarrow> bool \<Rightarrow> error + store \<times> ref" where
  "sinc_generate h width samples_per_unit normalize_arg =
     (case generate_sinc_2d width samples_per_unit of
        Inl e \<Rightarrow> Inl e
      | Inr k \<Rightarrow>
          let (h1, sincx_2d) = alloc h k in
          if normalize_arg then Inr (normalize_filter h1 sincx_2d samples_per_unit)
          else Inr (h1, sincx_2d))"

section \<open>Double precision\<close>

text \<open>
  The definitions above compute with exact reals. Where a statement turns on the exact
  value that the program computes, the same expressions are evaluated here as the
  program evaluates them: every arithmetic operation is followed by rounding to the
  nearest binary64 value, ties to even. The exponent range is taken as unbounded (no
  overflow, no subnormal numbers).
\<close>

definition round_even :: "real \<Rightarrow> int" where
  "round_even y =
     (let f = \<lfloor>y\<rfloor> in
      if y - of_int f < 1 / 2 then f
      else if 1 / 2 < y - of_int f then f + 1
      else if even f then f else f + 1)"










section \<open>The sample grid: properties\<close>



text \<open>
  Claim C3, as stated: for every \<open>width \<le> 0\<close> or \<open>samples_per_unit \<le> 0\<close> the grid
  builder fails rather than returning a coordinate sequence. \<open>_generate_x\<close> has no check
  of its arguments: at \<open>width = 0\<close>, \<open>samples_per_unit = 1\<close> it returns the one-element
  sequence \<open>[0.0]\<close>.
\<close>

theorem generate_x_no_validation: "generate_x 0 1 = Inr [Finite 0]"
  by (simp add: generate_x_def linspace_def)

text \<open>
  Claim C3, amended: the grid builder fails exactly when the sample count
  \<open>width * samples_per_unit + 1\<close> is negative, with the \<open>ValueError\<close> of
  \<open>np.linspace\<close>; for every other pair of arguments, also with \<open>width \<le> 0\<close> or
  \<open>samples_per_unit \<le> 0\<close>, it returns a sequence of that many coordinates.
\<close>

theorem generate_x_fails_iff:
  "(w * s + 1 < 0 \<longrightarrow> generate_x w s = Inl ValueError) \<and>
   (0 \<le> w * s + 1 \<longrightarrow>
      (\<exists>coords. generate_x w s = Inr coords \<and> length coords = nat (w * s + 1)))"
  by (auto simp add: generate_x_def linspace_def Let_def)

theorem generate_x_fails_iff_witness:
  "generate_x (- 2) 1 = Inl ValueError \<and>
   (\<exists>coords. generate_x (- 1) (- 1) = Inr coords \<and> length coords = 2)"
  using generate_x_fails_iff [of "- 2" 1] generate_x_fails_iff [of "- 1" "- 1"] by simp


subsection \<open>Rounding\<close>

lemma round_even_near:
  assumes "of_int n - 1 / 2 < y" and "y < of_int n + 1 / 2"
  shows "round_even y = n"
proof -
  have "\<lfloor>y\<rfloor> = n \<or> \<lfloor>y\<rfloor> = n - 1"
    using assms by linarith
  then show ?thesis
  proof
    assume f: "\<lfloor>y\<rfloor> = n"
    then have "y - of_int n < 1 / 2" using assms by linarith
    then show ?thesis by (simp add: round_even_def f)
  next
    assume f: "\<lfloor>y\<rfloor> = n - 1"
    then have "1 / 2 < y - of_int (n - 1)" using assms by simp
    then show ?thesis by (simp add: round_even_def f)
  qed
qed

lemma round_even_of_int: "round_even (of_int n) = n"
  by (rule round_even_near) simp_all


lemma round_even_numeral [simp]:
  "round_even (numeral w) = numeral w" "round_even (- numeral w) = - numeral w"
  using round_even_of_int [of "numeral w"] round_even_of_int [of "- numeral w"] by simp_all















section \<open>The cubic profiles\<close>

lemma linspace_finite:
  assumes "linspace start stop num = Inr x" and "v \<in> set x"
  shows "is_finite v"
proof (cases "nat num \<le> 1")
  case True
  then show ?thesis
    using assms by (auto simp add: linspace_def Let_def split: if_splits)
next
  case False
  define y where "y = map (\<lambda>i. Finite (real i * ((stop - start) / real (nat num - 1)) + start))
    [0..<nat num]"
  have "x = y[nat num - 1 := Finite stop]"
    using assms(1) False by (simp add: linspace_def Let_def y_def split: if_splits)
  then have "v \<in> insert (Finite stop) (set y)"
    using assms(2) set_update_subset_insert by fastforce
  then show ?thesis by (auto simp add: y_def)
qed

lemma generate_x_finite:
  assumes "generate_x w s = Inr x" and "v \<in> set x"
  shows "is_finite v"
  using assms unfolding generate_x_def Let_def by (rule linspace_finite)


















section \<open>The Lanczos profile and the separable expansion\<close>

lemma npfloat_mult_commute: "(x::npfloat) * y = y * x"
  by (cases x; cases y) (simp_all add: mult.commute)

lemma generate_lanczos_1d_map:
  assumes "generate_x w s = Inr x"
  shows "generate_lanczos_1d w s a =
      Inr (map (\<lambda>v. np_sinc1 v * np_sinc1 (v / Finite a) *
            (if Finite (- a) < v \<and> v < Finite a then Finite 1 else Finite 0)) x)"
  using assms
  by (simp add: generate_lanczos_1d_def np_sinc_def Let_def 
      list_eq_iff_nth_eq)

text \<open>
  Claim C5: at a coordinate \<open>t\<close> of the grid and for a Lanczos parameter \<open>a\<close> other
  than 0, the Lanczos profile is \<open>sinc t * sinc (t / a)\<close> for \<open>- a < t < a\<close> and 0 for
  \<open>|t| \<ge> a\<close>, the two boundary points \<open>t = - a\<close> and \<open>t = a\<close> included. The
  parameter of the data model is an integer \<open>a \<ge> 1\<close>; the statement covers every real
  \<open>a \<noteq> 0\<close>.
\<close>

theorem lanczos_profile:
  assumes "generate_x w s = Inr x" and "i < length x" and "x ! i = Finite t" and "a \<noteq> 0"
  shows "\<exists>prof. generate_lanczos_1d w s a = Inr prof \<and> length prof = length x \<and>
     (- a < t \<and> t < a \<longrightarrow> prof ! i = Finite (sinc t * sinc (t / a))) \<and>
     (a \<le> \<bar>t\<bar> \<longrightarrow> prof ! i = Finite 0)"
proof -
  let ?f = "\<lambda>v. np_sinc1 v * np_sinc1 (v / Finite a) *
            (if Finite (- a) < v \<and> v < Finite a then Finite 1 else Finite 0)"
  have g: "generate_lanczos_1d w s a = Inr (map ?f x)"
    using assms(1) by (rule generate_lanczos_1d_map)
  have n: "map ?f x ! i = ?f (Finite t)"
    using assms(2,3) by simp
  have inside: "?f (Finite t) = Finite (sinc t * sinc (t / a))" if "- a < t" "t < a"
    using that assms(4) by simp
  have outside: "?f (Finite t) = Finite 0" if "a \<le> \<bar>t\<bar>"
  proof -
    have "\<not> (- a < t \<and> t < a)" using that by linarith
    then show ?thesis using assms(4) by auto
  qed
  show ?thesis
    using g n inside outside by (intro exI [of _ "map ?f x"]) simp
qed

lemma grid_2_1: "generate_x 2 1 = Inr [Finite (- 1), Finite 0, Finite 1]"
  by (simp add: generate_x_def linspace_def Let_def upt_rec)

theorem lanczos_profile_witness:
  "\<exists>prof. generate_lanczos_1d 2 1 1 = Inr prof \<and> length prof = 3 \<and>
     prof ! 0 = Finite 0 \<and> prof ! 1 = Finite 1 \<and> prof ! 2 = Finite 0"
proof -
  let ?x = "[Finite (- 1), Finite 0, Finite 1]"
  have a: "(0::nat) < length ?x" "(1::nat) < length ?x" "(2::nat) < length ?x" by simp_all
  have b: "?x ! 0 = Finite (- 1)" "?x ! 1 = Finite 0" "?x ! 2 = Finite 1" by simp_all
  have c: "(1::real) \<noteq> 0" by simp
  from lanczos_profile [OF grid_2_1 a(1) b(1) c]
       lanczos_profile [OF grid_2_1 a(2) b(2) c]
       lanczos_profile [OF grid_2_1 a(3) b(3) c]
  show ?thesis by (auto simp add: sinc_def)
qed

text \<open>
  Claim C7: for a profile of length \<open>N\<close> the expansion is an \<open>N \<times> N\<close> matrix with the
  entry \<open>profile[i] * profile[j]\<close> at \<open>(i, j)\<close>; it is symmetric, and the diagonal
  holds the squares of the profile.
\<close>

theorem create_2d_separable_func_product:
  "length (create_2d_separable_func p) = length p \<and>
   (\<forall>i<length p. length (create_2d_separable_func p ! i) = length p \<and>
      create_2d_separable_func p ! i ! i = p ! i * p ! i \<and>
      (\<forall>t. p ! i = Finite t \<longrightarrow> create_2d_separable_func p ! i ! i = Finite (t\<^sup>2)) \<and>
      (\<forall>j<length p. create_2d_separable_func p ! i ! j = p ! i * p ! j \<and>
         create_2d_separable_func p ! i ! j = create_2d_separable_func p ! j ! i))"
  by (simp add: create_2d_separable_func_def npfloat_mult_commute power2_eq_square)

theorem create_2d_separable_func_product_witness:
  "create_2d_separable_func [Finite 2, Finite 3] =
     [[Finite 4, Finite 6], [Finite 6, Finite 9]] \<and>
   create_2d_separable_func [Finite 2, Finite 3] ! 0 ! 1 = Finite 2 * Finite 3"
  using create_2d_separable_func_product [of "[Finite 2, Finite 3]"]
  by (simp add: create_2d_separable_func_def upt_rec)

section \<open>The Gaussian kernel\<close>

lemma gaussian_entry:
  assumes "sigma \<noteq> 0"
  shows "Finite (1 / (2 * pi * (sigma * sigma))) *
     np_exp (- (Finite u * Finite u + Finite v * Finite v) / Finite (2 * (sigma * sigma)))
     = Finite (1 / (2 * pi * sigma\<^sup>2) * exp (- (u\<^sup>2 + v\<^sup>2) / (2 * sigma\<^sup>2)))"
  using assms by (simp add: power2_eq_square)

lemma generate_gaussian_2d_entries:
  assumes "generate_x w s = Inr x" and "sigma \<noteq> 0"
  shows "\<exists>k. generate_gaussian_2d w s sigma = Inr k \<and> length k = length x \<and>
     (\<forall>i<length x. length (k ! i) = length x \<and>
        (\<forall>j<length x. k ! i ! j =
           Finite (1 / (2 * pi * sigma\<^sup>2) *
             exp (- ((fin_val (x ! i))\<^sup>2 + (fin_val (x ! j))\<^sup>2) / (2 * sigma\<^sup>2)))))"
proof -
  have fin: "x ! i = Finite (fin_val (x ! i))" if "i < length x" for i
  proof -
    have "is_finite (x ! i)"
      using assms(1) that by (metis generate_x_finite nth_mem)
    then show ?thesis by (cases "x ! i") simp_all
  qed
  let ?k = "map (\<lambda>p_x. map (\<lambda>p_y. Finite (1 / (2 * pi * (sigma * sigma))) *
       np_exp (- (x ! p_x * x ! p_x + x ! p_y * x ! p_y) / Finite (2 * (sigma * sigma))))
       [0..<length x]) [0..<length x]"
  have g: "generate_gaussian_2d w s sigma = Inr ?k"
    using assms by (simp add: generate_gaussian_2d_def Let_def)
  have e: "?k ! i ! j = Finite (1 / (2 * pi * sigma\<^sup>2) *
             exp (- ((fin_val (x ! i))\<^sup>2 + (fin_val (x ! j))\<^sup>2) / (2 * sigma\<^sup>2)))"
    if "i < length x" "j < length x" for i j
  proof -
    have "?k ! i ! j = Finite (1 / (2 * pi * (sigma * sigma))) *
       np_exp (- (x ! i * x ! i + x ! j * x ! j) / Finite (2 * (sigma * sigma)))"
      using that by simp
    also have "\<dots> = Finite (1 / (2 * pi * (sigma * sigma))) *
       np_exp (- (Finite (fin_val (x ! i)) * Finite (fin_val (x ! i))
          + Finite (fin_val (x ! j)) * Finite (fin_val (x ! j))) / Finite (2 * (sigma * sigma)))"
      using fin [OF that(1)] fin [OF that(2)] by simp
    also have "\<dots> = Finite (1 / (2 * pi * sigma\<^sup>2) *
             exp (- ((fin_val (x ! i))\<^sup>2 + (fin_val (x ! j))\<^sup>2) / (2 * sigma\<^sup>2)))"
      using assms(2) by (rule gaussian_entry)
    finally show ?thesis .
  qed
  have l: "length (?k ! i) = length x" if "i < length x" for i
    using that by simp
  show ?thesis
  proof (intro exI [of _ ?k] conjI allI impI)
    show "generate_gaussian_2d w s sigma = Inr ?k" by (rule g)
    show "length ?k = length x" by simp
    show "length (?k ! i) = length x" if "i < length x" for i using that by (rule l)
    show "?k ! i ! j = Finite (1 / (2 * pi * sigma\<^sup>2) *
             exp (- ((fin_val (x ! i))\<^sup>2 + (fin_val (x ! j))\<^sup>2) / (2 * sigma\<^sup>2)))"
      if "i < length x" "j < length x" for i j using that by (rule e)
  qed
qed

lemma grid_2_2:
  "generate_x 2 2 = Inr [Finite (- 1), Finite (- (1 / 2)), Finite 0, Finite (1 / 2), Finite 1]"
  by (simp add: generate_x_def linspace_def Let_def upt_rec)

text \<open>
  Claim C8: the Gaussian kernel is computed entry by entry on the grid as
  \<open>1 / (2 pi sigma\<^sup>2) * exp (- (x\<^sup>2 + y\<^sup>2) / (2 sigma\<^sup>2))\<close>, and for \<open>width = 2\<close>,
  \<open>samples_per_unit = 2\<close>, \<open>sigma = 1\<close> the centre entry of the \<open>5 \<times> 5\<close> kernel is
  \<open>1 / (2 pi)\<close>.
\<close>

theorem generate_gaussian_2d_direct:
  "(generate_x w s = Inr x \<and> sigma \<noteq> 0 \<longrightarrow>
     (\<exists>k. generate_gaussian_2d w s sigma = Inr k \<and> length k = length x \<and>
        (\<forall>i<length x. length (k ! i) = length x \<and>
           (\<forall>j<length x. k ! i ! j =
              Finite (1 / (2 * pi * sigma\<^sup>2) *
                exp (- ((fin_val (x ! i))\<^sup>2 + (fin_val (x ! j))\<^sup>2) / (2 * sigma\<^sup>2))))))) \<and>
   (\<exists>k. generate_gaussian_2d 2 2 1 = Inr k \<and> length k = 5 \<and> k ! 2 ! 2 = Finite (1 / (2 * pi)))"
proof (intro conjI impI)
  assume "generate_x w s = Inr x \<and> sigma \<noteq> 0"
  then show "\<exists>k. generate_gaussian_2d w s sigma = Inr k \<and> length k = length x \<and>
        (\<forall>i<length x. length (k ! i) = length x \<and>
           (\<forall>j<length x. k ! i ! j =
              Finite (1 / (2 * pi * sigma\<^sup>2) *
                exp (- ((fin_val (x ! i))\<^sup>2 + (fin_val (x ! j))\<^sup>2) / (2 * sigma\<^sup>2)))))"
    using generate_gaussian_2d_entries [of w s x sigma] by blast
next
  let ?x = "[Finite (- 1), Finite (- (1 / 2)), Finite 0, Finite (1 / 2), Finite 1]"
  obtain k where k: "generate_gaussian_2d 2 2 1 = Inr k" "length k = length ?x"
      "\<forall>i<length ?x. length (k ! i) = length ?x \<and>
        (\<forall>j<length ?x. k ! i ! j =
           Finite (1 / (2 * pi * 1\<^sup>2) *
             exp (- ((fin_val (?x ! i))\<^sup>2 + (fin_val (?x ! j))\<^sup>2) / (2 * 1\<^sup>2))))"
    using generate_gaussian_2d_entries [OF grid_2_2 one_neq_zero] by blast
  have "k ! 2 ! 2 = Finite (1 / (2 * pi))"
    using k(3) by simp
  then show "\<exists>k. generate_gaussian_2d 2 2 1 = Inr k \<and> length k = 5 \<and> k ! 2 ! 2 = Finite (1 / (2 * pi))"
    using k(1,2) by simp
qed

theorem generate_gaussian_2d_direct_witness:
  "\<exists>k. generate_gaussian_2d 2 1 2 = Inr k \<and> length k = 3 \<and>
     k ! 1 ! 1 = Finite (1 / (8 * pi)) \<and> k ! 0 ! 1 = Finite (1 / (8 * pi) * exp (- 1 / 8))"
proof -
  let ?x = "[Finite (- 1), Finite 0, Finite 1]"
  have h: "generate_x 2 1 = Inr ?x \<and> (2::real) \<noteq> 0"
    using grid_2_1 by simp
  from generate_gaussian_2d_direct [of 2 1 ?x 2] h
  obtain k where k: "generate_gaussian_2d 2 1 2 = Inr k" "length k = length ?x"
     "\<forall>i<length ?x. length (k ! i) = length ?x \<and>
           (\<forall>j<length ?x. k ! i ! j =
              Finite (1 / (2 * pi * 2\<^sup>2) *
                exp (- ((fin_val (?x ! i))\<^sup>2 + (fin_val (?x ! j))\<^sup>2) / (2 * 2\<^sup>2))))"
    by blast
  have "k ! 1 ! 1 = Finite (1 / (8 * pi))" "k ! 0 ! 1 = Finite (1 / (8 * pi) * exp (- 1 / 8))"
    using k(3) by simp_all
  then show ?thesis using k(1,2) by simp
qed

section \<open>Parameters outside the data model\<close>

text \<open>
  Claim C9, as stated: the evaluators fail whenever the Lanczos parameter is not a
  positive integer or \<open>sigma\<close> is not strictly positive. Neither function checks its
  parameter: with \<open>a = - 1\<close> the Lanczos evaluator returns a profile of zeros, and with
  \<open>sigma = - 1\<close> the Gaussian evaluator returns the kernel of \<open>sigma = 1\<close>.
\<close>

theorem evaluators_no_validation:
  "generate_lanczos_1d 2 1 (- 1) = Inr [Finite 0, Finite 0, Finite 0] \<and>
   generate_gaussian_2d 2 1 (- 1) =
     Inr [[Finite (exp (- 1) / (2 * pi)), Finite (exp (- (1 / 2)) / (2 * pi)), Finite (exp (- 1) / (2 * pi))],
          [Finite (exp (- (1 / 2)) / (2 * pi)), Finite (1 / (2 * pi)), Finite (exp (- (1 / 2)) / (2 * pi))],
          [Finite (exp (- 1) / (2 * pi)), Finite (exp (- (1 / 2)) / (2 * pi)), Finite (exp (- 1) / (2 * pi))]]"
  by (simp add: generate_lanczos_1d_def generate_gaussian_2d_def grid_2_1 np_sinc_def Let_def
      upt_rec)

lemma lanczos_negative_zero:
  assumes "generate_x w s = Inr x" and "a < 0"
  shows "generate_lanczos_1d w s a = Inr (map (\<lambda>v. Finite 0) x)"
proof -
  let ?f = "\<lambda>v. np_sinc1 v * np_sinc1 (v / Finite a) *
            (if Finite (- a) < v \<and> v < Finite a then Finite 1 else Finite 0)"
  have "?f v = Finite 0" if "v \<in> set x" for v
  proof -
    have "is_finite v" using assms(1) that by (rule generate_x_finite)
    then obtain t where v: "v = Finite t" by (cases v) simp_all
    have "\<not> (- a < t \<and> t < a)" using assms(2) by linarith
    then show ?thesis using assms(2) unfolding v by auto
  qed
  then have "map ?f x = map (\<lambda>v. Finite 0) x" by simp
  then show ?thesis
    using generate_lanczos_1d_map [OF assms(1), of a] by simp
qed

lemma lanczos_returns:
  assumes "generate_x w s = Inr x"
  shows "\<exists>prof. generate_lanczos_1d w s a = Inr prof \<and> length prof = length x"
  using generate_lanczos_1d_map [OF assms, of a] by simp

lemma gaussian_sign:
  "generate_gaussian_2d w s (- sigma) = generate_gaussian_2d w s sigma"
  by (cases "generate_x w s") (simp_all add: generate_gaussian_2d_def Let_def)

lemma gaussian_returns:
  assumes "generate_x w s = Inr x" and "sigma \<noteq> 0"
  shows "\<exists>k. generate_gaussian_2d w s sigma = Inr k \<and> length k = length x"
  using assms by (simp add: generate_gaussian_2d_def Let_def)

lemma gaussian_zero:
  assumes "generate_x w s = Inr x"
  shows "generate_gaussian_2d w s 0 = Inl ZeroDivisionError"
  using assms by (simp add: generate_gaussian_2d_def)

text \<open>
  Claim C9, amended: whenever the grid is built, the Lanczos evaluator returns a profile
  for every \<open>a\<close>, the zero profile for \<open>a < 0\<close>; the Gaussian evaluator returns a kernel
  for every \<open>sigma \<noteq> 0\<close>, the same one for \<open>sigma\<close> and \<open>- sigma\<close>, and fails only at
  \<open>sigma = 0\<close>, with Python's \<open>ZeroDivisionError\<close>.
\<close>

theorem evaluators_unchecked:
  assumes "generate_x w s = Inr x"
  shows "(\<exists>prof. generate_lanczos_1d w s a = Inr prof \<and> length prof = length x \<and>
            (a < 0 \<longrightarrow> prof = map (\<lambda>v. Finite 0) x)) \<and>
         (sigma \<noteq> 0 \<longrightarrow>
            (\<exists>k. generate_gaussian_2d w s sigma = Inr k \<and> length k = length x \<and>
               generate_gaussian_2d w s (- sigma) = Inr k)) \<and>
         generate_gaussian_2d w s 0 = Inl ZeroDivisionError"
proof (intro conjI impI)
  show "\<exists>prof. generate_lanczos_1d w s a = Inr prof \<and> length prof = length x \<and>
            (a < 0 \<longrightarrow> prof = map (\<lambda>v. Finite 0) x)"
    using lanczos_returns [OF assms, of a] lanczos_negative_zero [OF assms, of a] by auto
  show "generate_gaussian_2d w s 0 = Inl ZeroDivisionError"
    using assms by (rule gaussian_zero)
next
  assume "sigma \<noteq> 0"
  then show "\<exists>k. generate_gaussian_2d w s sigma = Inr k \<and> length k = length x \<and>
               generate_gaussian_2d w s (- sigma) = Inr k"
    using gaussian_returns [OF assms, of sigma] by (auto simp add: gaussian_sign)
qed

theorem evaluators_unchecked_witness:
  "generate_lanczos_1d 2 1 (- 3) = Inr [Finite 0, Finite 0, Finite 0] \<and>
   (\<exists>k. generate_gaussian_2d 2 1 (- 2) = Inr k \<and> length k = 3) \<and>
   generate_gaussian_2d 2 1 0 = Inl ZeroDivisionError"
proof -
  have n: "(- 3::real) < 0" "(2::real) \<noteq> 0" by simp_all
  from evaluators_unchecked [OF grid_2_1, of "- 3" 2] n
  show ?thesis by auto
qed

section \<open>Normalisation: properties\<close>

lemma in_slice_mod:
  assumes "m < p"
  shows "in_slice m p j \<longleftrightarrow> j mod p = m"
proof
  assume "in_slice m p j"
  then have le: "m \<le> j" and z: "(j - m) mod p = 0" by (simp_all add: in_slice_def)
  then obtain q where "j - m = p * q" by (auto simp add: mod_eq_0_iff_dvd)
  then have "j = m + p * q" using le by simp
  then show "j mod p = m" using assms by simp
next
  assume h: "j mod p = m"
  have "j = p * (j div p) + j mod p" by simp
  then have j: "j = p * (j div p) + m" using h by simp
  then have "m \<le> j" by simp
  moreover have "j - m = p * (j div p)" using j by simp
  then have "(j - m) mod p = 0" by simp
  ultimately show "in_slice m p j" by (simp add: in_slice_def)
qed

lemma store_fold:
  "foldl (\<lambda>h' i. h'[r := f (h' ! r) i]) h js =
     (if r < length h then h[r := foldl f (h ! r) js] else h)"
proof (induction js arbitrary: h)
  case Nil
  then show ?case by simp
next
  case (Cons j js)
  show ?case by (simp add: Cons.IH list_update_beyond)
qed

lemma length_idiv_slice: "length (idiv_slice k i p d) = length k"
  by (simp add: idiv_slice_def)

lemma length_normalize_phase: "length (normalize_phase p k i) = length k"
  by (simp add: normalize_phase_def length_idiv_slice)

text \<open>
  After the first \<open>m\<close> iterations the rows of the phases below \<open>m\<close> are divided, each by
  the divisor computed on the array as it was before the loop; the other rows are as
  they were.
\<close>

lemma phases_invariant:
  assumes "m \<le> p"
  shows "length (foldl (normalize_phase p) k [0..<m]) = length k \<and>
     (\<forall>j<length k. foldl (normalize_phase p) k [0..<m] ! j =
        (if j mod p < m
         then map (\<lambda>v. v / (np_sum (np_slice k (j mod p) p) * Finite (real p))) (k ! j)
         else k ! j))"
  using assms
proof (induction m)
  case 0
  then show ?case by simp
next
  case (Suc m)
  let ?K = "foldl (normalize_phase p) k [0..<m]"
  have mp: "m < p" using Suc.prems by simp
  have len: "length ?K = length k" using Suc by simp
  have rows: "?K ! j = (if j mod p < m
         then map (\<lambda>v. v / (np_sum (np_slice k (j mod p) p) * Finite (real p))) (k ! j)
         else k ! j)" if "j < length k" for j
    using Suc that by simp
  have untouched: "?K ! j = k ! j" if "j < length k" "in_slice m p j" for j
    using rows [OF that(1)] that(2) by (simp add: in_slice_mod [OF mp])
  have sl: "np_slice ?K m p = np_slice k m p"
    unfolding np_slice_def len by (rule map_cong) (auto simp add: untouched)
  have step: "foldl (normalize_phase p) k [0..<Suc m] = normalize_phase p ?K m"
    by simp
  have new: "normalize_phase p ?K m ! j = (if j mod p < Suc m
         then map (\<lambda>v. v / (np_sum (np_slice k (j mod p) p) * Finite (real p))) (k ! j)
         else k ! j)" if "j < length k" for j
  proof (cases "j mod p = m")
    case True
    then have "in_slice m p j" by (simp add: in_slice_mod [OF mp])
    then show ?thesis
      using that True untouched [OF that]
      by (simp add: normalize_phase_def idiv_slice_def len sl)
  next
    case False
    then have "\<not> in_slice m p j" by (simp add: in_slice_mod [OF mp])
    moreover have "j mod p < Suc m \<longleftrightarrow> j mod p < m" using False by auto
    ultimately show ?thesis
      using that rows [OF that]
      by (simp add: normalize_phase_def idiv_slice_def len)
  qed
  show ?case
    unfolding step using new by (simp add: length_normalize_phase len)
qed

lemma foldl_plus_finite:
  assumes "\<forall>v\<in>set xs. is_finite v"
  shows "foldl (+) (Finite a) xs = Finite (a + sum_list (map fin_val xs))"
  using assms
proof (induction xs arbitrary: a)
  case Nil
  then show ?case by simp
next
  case (Cons x xs)
  then obtain t where x: "x = Finite t" by (cases x) simp_all
  show ?case using Cons by (simp add: x add.assoc)
qed

lemma np_sum1_finite:
  assumes "\<forall>v\<in>set xs. is_finite v"
  shows "np_sum1 xs = Finite (sum_list (map fin_val xs))"
  using foldl_plus_finite [OF assms, of 0] by (simp add: np_sum1_def)

lemma sum_list_map_divide:
  "sum_list (map (\<lambda>v. f v / c) xs) = sum_list (map f xs) / (c::real)"
  by (induction xs) (simp_all add: add_divide_distrib)

lemma np_sum1_scaled:
  assumes "\<forall>v\<in>set xs. is_finite v" and "c \<noteq> 0"
  shows "np_sum1 (map (\<lambda>v. v / Finite c) xs) = Finite (sum_list (map fin_val xs) / c)"
proof -
  have f: "\<forall>v\<in>set (map (\<lambda>v. v / Finite c) xs). is_finite v"
    using assms by (auto simp add: is_finite.simps elim!: is_finite.elims)
  have e: "map fin_val (map (\<lambda>v. v / Finite c) xs) = map (\<lambda>v. fin_val v / c) xs"
    using assms by (auto elim!: is_finite.elims)
  have "sum_list (map fin_val (map (\<lambda>v. v / Finite c) xs)) = sum_list (map fin_val xs) / c"
    unfolding e by (rule sum_list_map_divide)
  then show ?thesis using np_sum1_finite [OF f] by simp
qed

lemma normalize_filter_contents:
  assumes "r < length h"
  shows "normalize_filter h r p =
     (h[r := foldl (normalize_phase (nat p)) (h ! r) [0..<nat p]], r)"
  using assms by (simp add: normalize_filter_def store_fold)

lemma normalized_length:
  "length (foldl (normalize_phase p) k [0..<p]) = length k"
  using phases_invariant [of p p k] by simp

lemma normalized_rows:
  assumes "0 < p" and "j < length k"
  shows "foldl (normalize_phase p) k [0..<p] ! j =
     map (\<lambda>v. v / (np_sum (np_slice k (j mod p) p) * Finite (real p))) (k ! j)"
  using phases_invariant [of p p k] assms by simp

lemma normalized_slice:
  assumes "i < p"
  shows "np_slice (foldl (normalize_phase p) k [0..<p]) i p =
     map (map (\<lambda>v. v / (np_sum (np_slice k i p) * Finite (real p)))) (np_slice k i p)"
proof -
  have p: "0 < p" using assms by simp
  have "map ((!) (foldl (normalize_phase p) k [0..<p])) (filter (in_slice i p) [0..<length k]) =
      map (\<lambda>j. map (\<lambda>v. v / (np_sum (np_slice k i p) * Finite (real p))) (k ! j))
        (filter (in_slice i p) [0..<length k])"
    by (rule map_cong) (auto simp add: normalized_rows [OF p] in_slice_mod [OF assms])
  then show ?thesis
    by (simp add: np_slice_def normalized_length o_def)
qed

lemma slice_finite:
  assumes "\<forall>row\<in>set k. \<forall>v\<in>set row. is_finite v"
  shows "\<forall>v\<in>set (concat (np_slice k i p)). is_finite v"
  using assms by (auto simp add: np_slice_def)

text \<open>
  Claim C1: for a kernel of finite values and \<open>p > 0\<close> phases whose sums are all nonzero,
  \<open>normalize_filter\<close> divides every element of the rows \<open>i, i + p, i + 2p, ...\<close> by
  \<open>s * p\<close>, with \<open>s\<close> the sum of that phase before the call, and afterwards every phase
  \<open>i\<close> in \<open>[0, p)\<close> sums to \<open>1 / p\<close>.
\<close>

theorem normalize_filter_phase_sums:
  assumes "filter_data < length h" and "0 < oversampling"
    and "\<forall>row\<in>set (h ! filter_data). \<forall>v\<in>set row. is_finite v"
    and "\<forall>i<nat oversampling. np_sum (np_slice (h ! filter_data) i (nat oversampling)) \<noteq> Finite 0"
  shows "case normalize_filter h filter_data oversampling of (h', r) \<Rightarrow>
     length (h' ! r) = length (h ! filter_data) \<and>
     (\<forall>j<length (h ! filter_data). h' ! r ! j =
        map (\<lambda>v. v / (np_sum (np_slice (h ! filter_data) (j mod nat oversampling) (nat oversampling))
                       * Finite (real_of_int oversampling)))
          (h ! filter_data ! j)) \<and>
     (\<forall>i<nat oversampling. np_sum (np_slice (h' ! r) i (nat oversampling)) =
        Finite (1 / real_of_int oversampling))"
proof -
  define p where "p = nat oversampling"
  define k where "k = h ! filter_data"
  define K where "K = foldl (normalize_phase p) k [0..<p]"
  have p: "0 < p" and rp: "real p = real_of_int oversampling"
    using assms(2) by (simp_all add: p_def)
  have nf: "normalize_filter h filter_data oversampling = (h[filter_data := K], filter_data)"
    unfolding K_def k_def p_def using assms(1) by (rule normalize_filter_contents)
  have at: "h[filter_data := K] ! filter_data = K"
    using assms(1) by simp
  have len: "length K = length k"
    unfolding K_def by (rule normalized_length)
  have rows: "K ! j = map (\<lambda>v. v / (np_sum (np_slice k (j mod p) p) * Finite (real p))) (k ! j)"
    if "j < length k" for j
    unfolding K_def using p that by (rule normalized_rows)
  have sums: "np_sum (np_slice K i p) = Finite (1 / real p)" if "i < p" for i
  proof -
    let ?xs = "concat (np_slice k i p)"
    let ?S = "sum_list (map fin_val ?xs)"
    have fin: "\<forall>v\<in>set ?xs. is_finite v"
      using assms(3) unfolding k_def by (rule slice_finite)
    have s: "np_sum (np_slice k i p) = Finite ?S"
      unfolding np_sum_def using fin by (rule np_sum1_finite)
    have "np_sum (np_slice k i p) \<noteq> Finite 0"
      using assms(4) that unfolding p_def k_def by simp
    then have nz: "?S \<noteq> 0" using s by simp
    then have c: "?S * real p \<noteq> 0" using p by simp
    have "np_slice K i p = map (map (\<lambda>v. v / Finite (?S * real p))) (np_slice k i p)"
      unfolding K_def using normalized_slice [OF that, of k] by (simp add: s)
    then have "np_sum (np_slice K i p) = np_sum1 (map (\<lambda>v. v / Finite (?S * real p)) ?xs)"
      by (simp add: np_sum_def map_concat)
    also have "\<dots> = Finite (?S / (?S * real p))"
      using fin c by (rule np_sum1_scaled)
    also have "\<dots> = Finite (1 / real p)"
      using nz by simp
    finally show ?thesis .
  qed
  show ?thesis
    unfolding nf prod.case at
    using len rows sums unfolding k_def [symmetric] p_def [symmetric] rp by simp
qed

lemma upt_2: "[0..<2] = [0, 1]"
  by (simp add: upt_rec)

lemma upt_3: "[0..<3] = [0, 1, 2]"
  by (simp add: upt_rec)

theorem normalize_filter_phase_sums_witness:
  "normalize_filter [[[Finite 1, Finite 3], [Finite 2, Finite 2], [Finite 4, Finite 0]]] 0 2 =
     ([[[Finite (1 / 16), Finite (3 / 16)], [Finite (1 / 4), Finite (1 / 4)],
        [Finite (1 / 4), Finite 0]]], 0) \<and>
   np_sum (np_slice [[Finite (1 / 16), Finite (3 / 16)], [Finite (1 / 4), Finite (1 / 4)],
        [Finite (1 / 4), Finite 0]] 0 2) = Finite (1 / 2)"
proof -
  let ?k = "[[Finite 1, Finite 3], [Finite 2, Finite 2], [Finite 4, Finite 0]]"
  let ?h = "[?k]"
  have a: "(0::nat) < length ?h" "(0::int) < 2" by simp_all
  have b: "\<forall>row\<in>set (?h ! 0). \<forall>v\<in>set row. is_finite v" by simp
  have s0: "np_sum (np_slice ?k 0 2) = Finite 8"
    by (simp add: np_slice_def in_slice_def upt_3 np_sum_def np_sum1_def)
  have s1: "np_sum (np_slice ?k (Suc 0) 2) = Finite 4"
    by (simp add: np_slice_def in_slice_def upt_3 np_sum_def np_sum1_def)
  have c: "\<forall>i<nat 2. np_sum (np_slice (?h ! 0) i (nat 2)) \<noteq> Finite 0"
  proof (intro allI impI)
    fix i :: nat assume "i < nat 2"
    then have "i = 0 \<or> i = Suc 0" by auto
    then show "np_sum (np_slice (?h ! 0) i (nat 2)) \<noteq> Finite 0"
      using s0 s1 by auto
  qed
  have v: "normalize_filter ?h 0 2 =
     ([[[Finite (1 / 16), Finite (3 / 16)], [Finite (1 / 4), Finite (1 / 4)],
        [Finite (1 / 4), Finite 0]]], 0)"
    by (simp add: normalize_filter_def normalize_phase_def idiv_slice_def np_slice_def
        in_slice_def np_sum_def np_sum1_def upt_2 upt_3)
  from normalize_filter_phase_sums [OF a b c]
  have "\<forall>i<nat 2. np_sum (np_slice [[Finite (1 / 16), Finite (3 / 16)],
        [Finite (1 / 4), Finite (1 / 4)], [Finite (1 / 4), Finite 0]] i (nat 2))
      = Finite (1 / real_of_int 2)"
    unfolding v by simp
  then have "np_sum (np_slice [[Finite (1 / 16), Finite (3 / 16)],
        [Finite (1 / 4), Finite (1 / 4)], [Finite (1 / 4), Finite 0]] 0 2) = Finite (1 / 2)"
    by simp
  then show ?thesis using v by simp
qed

text \<open>
  Claim C2, as stated: with a phase whose sum is zero, \<open>normalize_filter\<close> fails with a
  reported error and returns no kernel with NaN or infinite values. The function has no
  guard: on the kernel \<open>[[1, -1], [0, 0]]\<close> with one phase, whose sum is 0, it returns the
  kernel \<open>[[inf, -inf], [nan, nan]]\<close>.
\<close>

theorem normalize_filter_silent:
  "normalize_filter [[[Finite 1, Finite (- 1)], [Finite 0, Finite 0]]] 0 1 =
     ([[[PInf, NInf], [NaN, NaN]]], 0)"
  by (simp add: normalize_filter_def normalize_phase_def idiv_slice_def np_slice_def
      in_slice_def np_sum_def np_sum1_def upt_2)

lemma divide_zero_value:
  "is_finite v \<Longrightarrow>
     v / Finite 0 = (if fin_val v = 0 then NaN else if 0 < fin_val v then PInf else NInf)"
  by (cases v) simp_all

text \<open>
  Claim C2, amended: for a kernel of finite values and \<open>p > 0\<close>, if the sum of a phase is
  exactly zero then \<open>normalize_filter\<close> still returns the kernel, of the same shape, and
  in the rows of that phase every element that was 0 is NaN, every positive element is
  \<open>+inf\<close> and every negative element is \<open>-inf\<close>.
\<close>

theorem normalize_filter_zero_phase_values:
  assumes "filter_data < length h" and "0 < oversampling"
    and "\<forall>row\<in>set (h ! filter_data). \<forall>v\<in>set row. is_finite v"
    and "i < nat oversampling"
    and "np_sum (np_slice (h ! filter_data) i (nat oversampling)) = Finite 0"
  shows "case normalize_filter h filter_data oversampling of (h', r) \<Rightarrow>
     r = filter_data \<and> length (h' ! r) = length (h ! filter_data) \<and>
     (\<forall>j<length (h ! filter_data). j mod nat oversampling = i \<longrightarrow>
        h' ! r ! j =
          map (\<lambda>v. if fin_val v = 0 then NaN else if 0 < fin_val v then PInf else NInf)
            (h ! filter_data ! j))"
proof -
  define p where "p = nat oversampling"
  define k where "k = h ! filter_data"
  define K where "K = foldl (normalize_phase p) k [0..<p]"
  have p: "0 < p" using assms(2) by (simp add: p_def)
  have nf: "normalize_filter h filter_data oversampling = (h[filter_data := K], filter_data)"
    unfolding K_def k_def p_def using assms(1) by (rule normalize_filter_contents)
  have at: "h[filter_data := K] ! filter_data = K"
    using assms(1) by simp
  have len: "length K = length k"
    unfolding K_def by (rule normalized_length)
  have z: "np_sum (np_slice k i p) = Finite 0"
    using assms(5) unfolding k_def p_def .
  have rows: "K ! j = map (\<lambda>v. v / Finite 0) (k ! j)" if "j < length k" "j mod p = i" for j
    unfolding K_def using normalized_rows [OF p that(1)] that(2) z by simp
  have vals: "K ! j =
      map (\<lambda>v. if fin_val v = 0 then NaN else if 0 < fin_val v then PInf else NInf) (k ! j)"
    if "j < length k" "j mod p = i" for j
  proof -
    have "k ! j \<in> set k" using that(1) by simp
    then have f: "\<forall>v\<in>set (k ! j). is_finite v"
      using assms(3) unfolding k_def by blast
    show ?thesis
      unfolding rows [OF that] by (rule map_cong) (simp_all add: f divide_zero_value)
  qed
  show ?thesis
    unfolding nf prod.case at
    using len vals unfolding k_def [symmetric] p_def [symmetric] by simp
qed

theorem normalize_filter_zero_phase_values_witness:
  "normalize_filter [[[Finite 1, Finite 1], [Finite 2, Finite (- 2), Finite 0]]] 0 2 =
     ([[[Finite (1 / 4), Finite (1 / 4)], [PInf, NInf, NaN]]], 0)"
proof -
  let ?k = "[[Finite 1, Finite 1], [Finite 2, Finite (- 2), Finite 0]]"
  let ?h = "[?k]"
  have a: "(0::nat) < length ?h" "(0::int) < 2" by simp_all
  have b: "\<forall>row\<in>set (?h ! 0). \<forall>v\<in>set row. is_finite v" by simp
  have c: "1 < nat 2" by simp
  have d: "np_sum (np_slice (?h ! 0) 1 (nat 2)) = Finite 0"
    by (simp add: np_slice_def in_slice_def upt_2 np_sum_def np_sum1_def)
  obtain h' r where v: "normalize_filter ?h 0 2 = (h', r)" by force
  have e: "h' ! 0 ! 0 = [Finite (1 / 4), Finite (1 / 4)]" "length h' = 1" "length (h' ! 0) = 2"
    using v
    by (auto simp add: normalize_filter_def normalize_phase_def idiv_slice_def np_slice_def
        in_slice_def np_sum_def np_sum1_def upt_2)
  from normalize_filter_zero_phase_values [OF a b c d]
  have f: "r = 0" "\<forall>j<2. j mod 2 = 1 \<longrightarrow> h' ! 0 ! j =
      map (\<lambda>v. if fin_val v = 0 then NaN else if 0 < fin_val v then PInf else NInf) (?k ! j)"
    unfolding v by auto
  have "h' ! 0 ! 1 = [PInf, NInf, NaN]"
    using f(2) by simp
  then have "h' ! 0 = [[Finite (1 / 4), Finite (1 / 4)], [PInf, NInf, NaN]]"
    using e(1,3) by (simp add: list_eq_iff_nth_eq less_Suc_eq numeral_2_eq_2)
  then have "h' = [[[Finite (1 / 4), Finite (1 / 4)], [PInf, NInf, NaN]]]"
    using e(2) by (simp add: list_eq_iff_nth_eq)
  then show ?thesis using v f(1) by simp
qed


text \<open>
  Claim C10: \<open>normalize_filter\<close> works in place. The reference it returns is the one it
  was given; the store has as many arrays as before, so no copy was made; every other
  array is unchanged; and the array the caller passed now holds the normalised values.
\<close>

theorem normalize_filter_in_place:
  assumes "filter_data < length h"
  shows "case normalize_filter h filter_data oversampling of (h', r) \<Rightarrow>
     r = filter_data \<and> length h' = length h \<and>
     (\<forall>a<length h. a \<noteq> filter_data \<longrightarrow> h' ! a = h ! a) \<and>
     length (h' ! filter_data) = length (h ! filter_data) \<and>
     (0 < oversampling \<longrightarrow>
        (\<forall>j<length (h ! filter_data). h' ! filter_data ! j =
           map (\<lambda>v. v / (np_sum (np_slice (h ! filter_data) (j mod nat oversampling)
                            (nat oversampling)) * Finite (real_of_int oversampling)))
             (h ! filter_data ! j)))"
proof -
  define p where "p = nat oversampling"
  define k where "k = h ! filter_data"
  define K where "K = foldl (normalize_phase p) k [0..<p]"
  have nf: "normalize_filter h filter_data oversampling = (h[filter_data := K], filter_data)"
    unfolding K_def k_def p_def using assms(1) by (rule normalize_filter_contents)
  have at: "h[filter_data := K] ! filter_data = K"
    using assms(1) by simp
  have len: "length K = length k"
    unfolding K_def by (rule normalized_length)
  have rows: "K ! j = map (\<lambda>v. v / (np_sum (np_slice k (j mod p) p)
      * Finite (real_of_int oversampling))) (k ! j)"
    if "0 < oversampling" "j < length k" for j
  proof -
    have "0 < p" "real p = real_of_int oversampling" using that(1) by (simp_all add: p_def)
    then show ?thesis
      unfolding K_def using normalized_rows [of p j k] that(2) by simp
  qed
  show ?thesis
    unfolding nf prod.case at
    using len rows unfolding k_def [symmetric] p_def [symmetric] by simp
qed

theorem normalize_filter_in_place_witness:
  "normalize_filter [[[Finite 5]], [[Finite 1, Finite 1], [Finite 2, Finite 2]]] 1 2 =
     ([[[Finite 5]], [[Finite (1 / 4), Finite (1 / 4)], [Finite (1 / 4), Finite (1 / 4)]]], 1)"
proof -
  let ?h = "[[[Finite 5]], [[Finite 1, Finite 1], [Finite 2, Finite 2]]]"
  have a: "(1::nat) < length ?h" by simp
  obtain h' r where v: "normalize_filter ?h 1 2 = (h', r)" by force
  from normalize_filter_in_place [OF a, of 2]
  have f: "r = 1" "length h' = 2" "h' ! 0 = [[Finite 5]]" "length (h' ! 1) = 2"
    "\<forall>j<2. h' ! 1 ! j = map (\<lambda>v. v / (np_sum (np_slice (?h ! 1) (j mod 2) 2) * Finite 2)) (?h ! 1 ! j)"
    unfolding v by simp_all
  have s: "np_sum (np_slice (?h ! 1) 0 2) = Finite 2" "np_sum (np_slice (?h ! 1) (Suc 0) 2) = Finite 4"
    by (simp_all add: np_slice_def in_slice_def upt_2 np_sum_def np_sum1_def)
  have "h' ! 1 ! 0 = [Finite (1 / 4), Finite (1 / 4)]" "h' ! 1 ! 1 = [Finite (1 / 4), Finite (1 / 4)]"
    using f(5) s by simp_all
  then have "h' ! 1 = [[Finite (1 / 4), Finite (1 / 4)], [Finite (1 / 4), Finite (1 / 4)]]"
    using f(4) by (simp add: list_eq_iff_nth_eq less_Suc_eq numeral_2_eq_2)
  then have "h' = [[[Finite 5]], [[Finite (1 / 4), Finite (1 / 4)], [Finite (1 / 4), Finite (1 / 4)]]]"
    using f(2,3) by (simp add: list_eq_iff_nth_eq less_Suc_eq numeral_2_eq_2)
  then show ?thesis using v f(1) by simp
qed

text \<open>
  In \<open>SincFilterGenerator.generate\<close> with normalisation, the one array that is created
  is the generated kernel, and the reference returned is the reference to it.
\<close>

lemma sinc_generate_single_array:
  assumes "sinc_generate h w s True = Inr (h', r)"
  shows "r = length h \<and> length h' = Suc (length h) \<and> take (length h) h' = h"
proof -
  obtain k where k: "generate_sinc_2d w s = Inr k"
    using assms by (cases "generate_sinc_2d w s") (simp_all add: sinc_generate_def)
  have a: "length h < length (h @ [k])" by simp
  have "normalize_filter (h @ [k]) (length h) s = (h', r)"
    using assms by (simp add: sinc_generate_def k alloc_def)
  then show ?thesis
    unfolding normalize_filter_contents [OF a] by auto
qed

end
